theory Spec2Isabelle
  imports Main "HOL-Library.Word"
begin

section \<open>Scalar types and their values\<close>

text \<open>
  The header \<^verbatim>\<open>helper_primitives.h\<close> is written for three scalar types:
  \<^verbatim>\<open>platform::float16\<close>, \<^verbatim>\<open>float\<close> and \<^verbatim>\<open>double\<close>. A template parameter
  \<^verbatim>\<open>typename T\<close> becomes an argument of type \<open>scalar_type\<close>; a value of such a type is
  its bit pattern, split into sign, biased exponent field and fraction field.
\<close>

datatype scalar_type = Float16 | Float32 | Float64

text \<open>
  Modelled from the spec: \<^verbatim>\<open>platform::float16\<close> is declared outside this header. The
  glossary calls it a 16-bit floating-point representation; it is taken to be the binary16
  interchange format (5 exponent bits, 10 fraction bits).
\<close>

fun ebits :: "scalar_type \<Rightarrow> nat" where
  "ebits Float16 = 5"
| "ebits Float32 = 8"
| "ebits Float64 = 11"

fun fbits :: "scalar_type \<Rightarrow> nat" where
  "fbits Float16 = 10"
| "fbits Float32 = 23"
| "fbits Float64 = 52"

definition bias :: "scalar_type \<Rightarrow> nat" where
  "bias T = 2 ^ (ebits T - 1) - 1"

definition emax :: "scalar_type \<Rightarrow> nat" where
  \<comment> \<open>the all-ones exponent field, reserved for infinities and NaNs\<close>
  "emax T = 2 ^ ebits T - 1"

datatype fp = FP (sign: bool) (expo: nat) (frac: nat)

definition valid :: "scalar_type \<Rightarrow> fp \<Rightarrow> bool" where
  "valid T x \<longleftrightarrow> expo x \<le> emax T \<and> frac x < 2 ^ fbits T"

definition is_nan :: "scalar_type \<Rightarrow> fp \<Rightarrow> bool" where
  "is_nan T x \<longleftrightarrow> expo x = emax T \<and> frac x \<noteq> 0"

definition is_inf :: "scalar_type \<Rightarrow> fp \<Rightarrow> bool" where
  "is_inf T x \<longleftrightarrow> expo x = emax T \<and> frac x = 0"

definition is_zero :: "fp \<Rightarrow> bool" where
  "is_zero x \<longleftrightarrow> expo x = 0 \<and> frac x = 0"

definition is_finite :: "scalar_type \<Rightarrow> fp \<Rightarrow> bool" where
  "is_finite T x \<longleftrightarrow> expo x < emax T"

definition fp_inf :: "scalar_type \<Rightarrow> bool \<Rightarrow> fp" where
  "fp_inf T s = FP s (emax T) 0"

definition fp_zero :: "bool \<Rightarrow> fp" where
  "fp_zero s = FP s 0 0"

definition qnan :: "scalar_type \<Rightarrow> fp" where
  \<comment> \<open>the NaN an invalid operation produces; only the fact that it is a NaN is used\<close>
  "qnan T = FP False (emax T) (2 ^ (fbits T - 1))"

definition fp_one :: "scalar_type \<Rightarrow> fp" where
  "fp_one T = FP False (bias T) 0"

text \<open>
  A finite value is \<open>(-1)^sign * sig * 2^ex\<close>: the significand carries the hidden bit
  of a normal number, and a subnormal shares the exponent of the smallest normal.
\<close>

definition sig :: "scalar_type \<Rightarrow> fp \<Rightarrow> nat" where
  "sig T x = (if expo x = 0 then frac x else 2 ^ fbits T + frac x)"

definition ex :: "scalar_type \<Rightarrow> fp \<Rightarrow> int" where
  "ex T x = int (max (expo x) 1) - int (bias T) - int (fbits T)"

section \<open>Arithmetic of the scalar types\<close>

text \<open>
  The C++ operators \<^verbatim>\<open>*\<close> and \<^verbatim>\<open>/\<close>, the conversion of an \<^verbatim>\<open>int\<close> to
  \<^verbatim>\<open>double\<close> and \<^verbatim>\<open>static_cast\<close> between the scalar types are IEEE 754 operations
  in the default rounding mode, round to nearest, ties to even. Each computes the exact
  result and rounds it once; \<open>round_quot T s a b e\<close> rounds the exact positive quantity
  \<open>a / b * 2^e\<close> into the format of \<open>T\<close> and attaches the sign \<open>s\<close>.

  In \<open>round_quot\<close>, \<open>fl\<close> is the floor of the binary logarithm of \<open>a / b\<close>, \<open>k\<close> the
  exponent of the binade the quantity lies in, raised to the exponent of the smallest normal
  number for a subnormal result, and \<open>q\<close> the quantity in units of the last place of that
  binade, rounded to an integer. \<open>bits\<close> is the bit pattern of the magnitude read as one
  integer: a significand that rounds up to the next power of two carries into the exponent
  field, and a pattern that reaches the all-ones exponent is an overflow, which rounds to
  infinity.
\<close>

fun bitlen :: "nat \<Rightarrow> nat" where
  "bitlen n = (if n = 0 then 0 else Suc (bitlen (n div 2)))"

declare bitlen.simps [simp del]

definition rne :: "nat \<Rightarrow> nat \<Rightarrow> nat" where
  \<comment> \<open>the integer nearest to \<open>N / D\<close>, the even one of two equally near\<close>
  "rne N D =
     (let q = N div D; r = N mod D
      in if 2 * r < D then q
         else if D < 2 * r then q + 1
         else if even q then q else q + 1)"

definition round_quot :: "scalar_type \<Rightarrow> bool \<Rightarrow> nat \<Rightarrow> nat \<Rightarrow> int \<Rightarrow> fp" where
  "round_quot T s a b e =
     (let emin = 1 - int (bias T);
          t = int (bitlen a) - int (bitlen b);
          fl = (if b * 2 ^ nat t \<le> a * 2 ^ nat (- t) then t else t - 1);
          k = max (fl + e) emin;
          sh = e - k + int (fbits T);
          q = rne (a * 2 ^ nat sh) (b * 2 ^ nat (- sh));
          bits = nat (k - emin) * 2 ^ fbits T + q
      in if emax T * 2 ^ fbits T \<le> bits then fp_inf T s
         else FP s (bits div 2 ^ fbits T) (bits mod 2 ^ fbits T))"

definition fmul :: "scalar_type \<Rightarrow> fp \<Rightarrow> fp \<Rightarrow> fp" where
  "fmul T x y =
     (if is_nan T x \<or> is_nan T y then qnan T
      else if is_inf T x \<or> is_inf T y then
        (if is_zero x \<or> is_zero y then qnan T else fp_inf T (sign x \<noteq> sign y))
      else if is_zero x \<or> is_zero y then fp_zero (sign x \<noteq> sign y)
      else round_quot T (sign x \<noteq> sign y) (sig T x * sig T y) 1 (ex T x + ex T y))"

definition fdiv :: "scalar_type \<Rightarrow> fp \<Rightarrow> fp \<Rightarrow> fp" where
  "fdiv T x y =
     (if is_nan T x \<or> is_nan T y then qnan T
      else if is_inf T x then (if is_inf T y then qnan T else fp_inf T (sign x \<noteq> sign y))
      else if is_inf T y then fp_zero (sign x \<noteq> sign y)
      else if is_zero y then (if is_zero x then qnan T else fp_inf T (sign x \<noteq> sign y))
      else if is_zero x then fp_zero (sign x \<noteq> sign y)
      else round_quot T (sign x \<noteq> sign y) (sig T x) (sig T y) (ex T x - ex T y))"

definition convert :: "scalar_type \<Rightarrow> scalar_type \<Rightarrow> fp \<Rightarrow> fp" where
  "convert Tx Ty x =
     (if is_nan Tx x then qnan Ty
      else if is_inf Tx x then fp_inf Ty (sign x)
      else if is_zero x then fp_zero (sign x)
      else round_quot Ty (sign x) (sig Tx x) 1 (ex Tx x))"

text \<open>
  \<^verbatim>\<open>static_cast<Ty>(x)\<close> for \<open>x\<close> of type \<open>Tx\<close>. A cast to the type the value
  already has converts nothing.

  Modelled from the spec: \<^verbatim>\<open>platform::float16\<close> and its converting constructors
  are declared outside this header. Its constructor from a \<^verbatim>\<open>double\<close> is taken to
  convert to \<^verbatim>\<open>float\<close> first and to the 16-bit representation from there; every
  other conversion rounds once.
\<close>

definition static_cast :: "scalar_type \<Rightarrow> scalar_type \<Rightarrow> fp \<Rightarrow> fp" where
  "static_cast Tx Ty x =
     (if Tx = Ty then x
      else if Tx = Float64 \<and> Ty = Float16 then convert Float32 Float16 (convert Float64 Float32 x)
      else convert Tx Ty x)"

definition fadd :: "scalar_type \<Rightarrow> fp \<Rightarrow> fp \<Rightarrow> fp" where
  "fadd T x y =
     (if is_nan T x \<or> is_nan T y then qnan T
      else if is_inf T x then (if is_inf T y \<and> sign x \<noteq> sign y then qnan T else x)
      else if is_inf T y then y
      else if is_zero x \<and> is_zero y then fp_zero (sign x \<and> sign y)
      else if is_zero x then y
      else if is_zero y then x
      else
        (let e = min (ex T x) (ex T y);
             mx = (if sign x then - 1 else 1) * int (sig T x) * 2 ^ nat (ex T x - e);
             my = (if sign y then - 1 else 1) * int (sig T y) * 2 ^ nat (ex T y - e);
             m = mx + my
         in if m = 0 then fp_zero False
            else round_quot T (m < 0) (nat \<bar>m\<bar>) 1 e))"

text \<open>The conversion of a C++ \<^verbatim>\<open>int\<close> (32 bits, two's complement) to \<^verbatim>\<open>double\<close>.\<close>

definition int_to_double :: "32 word \<Rightarrow> fp" where
  "int_to_double n =
     (if n = 0 then fp_zero False
      else round_quot Float64 (sint n < 0) (nat \<bar>sint n\<bar>) 1 0)"

section \<open>The transcendental dispatch layer\<close>

text \<open>
  \<^verbatim>\<open>::Eigen::numext::exp\<close>, \<^verbatim>\<open>expf\<close>, \<^verbatim>\<open>exp\<close> and their logarithm
  counterparts are library routines defined outside the repository. The model takes them
  as the fields of a parameter \<open>lib\<close>.
\<close>

record mathlib =
  numext_exp :: "fp \<Rightarrow> fp"
  expf :: "fp \<Rightarrow> fp"
  exp :: "fp \<Rightarrow> fp"
  numext_log :: "fp \<Rightarrow> fp"
  logf :: "fp \<Rightarrow> fp"
  log :: "fp \<Rightarrow> fp"

text \<open>
  The three overloads of \<^verbatim>\<open>details::ExpFunctor\<close> and of \<^verbatim>\<open>details::LogFunctor\<close>:
  the argument's static type picks the equation.
\<close>

fun ExpFunctor :: "mathlib \<Rightarrow> scalar_type \<Rightarrow> fp \<Rightarrow> fp" where
  "ExpFunctor lib Float16 x = numext_exp lib x"
| "ExpFunctor lib Float32 x = expf lib x"
| "ExpFunctor lib Float64 x = exp lib x"

fun LogFunctor :: "mathlib \<Rightarrow> scalar_type \<Rightarrow> fp \<Rightarrow> fp" where
  "LogFunctor lib Float16 x = numext_log lib x"
| "LogFunctor lib Float32 x = logf lib x"
| "LogFunctor lib Float64 x = log lib x"

text \<open>The return type each overload declares for its argument type.\<close>

fun ExpFunctor_return_type :: "scalar_type \<Rightarrow> scalar_type" where
  "ExpFunctor_return_type Float16 = Float16"
| "ExpFunctor_return_type Float32 = Float32"
| "ExpFunctor_return_type Float64 = Float64"

fun LogFunctor_return_type :: "scalar_type \<Rightarrow> scalar_type" where
  "LogFunctor_return_type Float16 = Float16"
| "LogFunctor_return_type Float32 = Float32"
| "LogFunctor_return_type Float64 = Float64"

section \<open>The compute functors\<close>

text \<open>
  A \<^verbatim>\<open>const T* x\<close> argument is the sequence of scalars stored from \<open>x\<close> on, and
  \<^verbatim>\<open>x[i]\<close> reads its element \<open>i\<close>. A read past the end of the sequence has no
  defined result in C++; in the model it is \<open>None\<close>.
\<close>

definition index :: "'a list \<Rightarrow> nat \<Rightarrow> 'a option" where
  "index x i = (if i < length x then Some (x ! i) else None)"

subsection \<open>Template parameter lists\<close>

text \<open>
  A template is instantiated with a list of type arguments. Each function below binds such
  a list to the template's parameters as the template header declares them and returns
  the argument type and the return type of \<^verbatim>\<open>operator()\<close>; a list the header does
  not accept is rejected by the compiler, which is \<open>None\<close>.

  \<^verbatim>\<open>template <typename Tx, typename Ty = Tx> struct ExpLogitTransformer\<close>
\<close>

fun ExpLogitTransformer_template :: "scalar_type list \<Rightarrow> (scalar_type \<times> scalar_type) option" where
  "ExpLogitTransformer_template [Tx] = Some (Tx, Tx)"
| "ExpLogitTransformer_template [Tx, Ty] = Some (Tx, Ty)"
| "ExpLogitTransformer_template _ = None"

text \<open>\<^verbatim>\<open>template <typename Tx, typename Ty = Tx> struct IdentityFunctor\<close>\<close>

fun IdentityFunctor_template :: "scalar_type list \<Rightarrow> (scalar_type \<times> scalar_type) option" where
  "IdentityFunctor_template [Tx] = Some (Tx, Tx)"
| "IdentityFunctor_template [Tx, Ty] = Some (Tx, Ty)"
| "IdentityFunctor_template _ = None"

text \<open>\<^verbatim>\<open>template <typename T> struct DivideFunctor\<close>\<close>

fun DivideFunctor_template :: "scalar_type list \<Rightarrow> (scalar_type \<times> scalar_type) option" where
  "DivideFunctor_template [T] = Some (T, T)"
| "DivideFunctor_template _ = None"

subsection \<open>ExpLogitTransformer\<close>

text \<open>The struct has no data member.\<close>

datatype ExpLogitTransformer = ExpLogitTransformer_members

definition ExpLogitTransformer_ctor :: "32 word \<Rightarrow> ExpLogitTransformer" where
  "ExpLogitTransformer_ctor n = ExpLogitTransformer_members"

definition ExpLogitTransformer_call_ptr ::
    "mathlib \<Rightarrow> scalar_type \<Rightarrow> scalar_type \<Rightarrow> ExpLogitTransformer \<Rightarrow> fp list \<Rightarrow> fp option" where
  "ExpLogitTransformer_call_ptr lib Tx Ty self x =
     (case index x 0 of
        None \<Rightarrow> None
      | Some x0 \<Rightarrow> Some (static_cast Tx Ty (ExpFunctor lib Tx x0)))"

definition ExpLogitTransformer_call ::
    "mathlib \<Rightarrow> scalar_type \<Rightarrow> scalar_type \<Rightarrow> ExpLogitTransformer \<Rightarrow> fp \<Rightarrow> fp" where
  "ExpLogitTransformer_call lib Tx Ty self x = static_cast Tx Ty (ExpFunctor lib Tx x)"

subsection \<open>IdentityFunctor\<close>

datatype IdentityFunctor = IdentityFunctor_members

definition IdentityFunctor_ctor :: "32 word \<Rightarrow> IdentityFunctor" where
  "IdentityFunctor_ctor n = IdentityFunctor_members"

definition IdentityFunctor_call_ptr ::
    "scalar_type \<Rightarrow> scalar_type \<Rightarrow> IdentityFunctor \<Rightarrow> fp list \<Rightarrow> fp option" where
  "IdentityFunctor_call_ptr Tx Ty self x =
     (case index x 0 of
        None \<Rightarrow> None
      | Some x0 \<Rightarrow> Some (static_cast Tx Ty x0))"

definition IdentityFunctor_call ::
    "scalar_type \<Rightarrow> scalar_type \<Rightarrow> IdentityFunctor \<Rightarrow> fp \<Rightarrow> fp" where
  "IdentityFunctor_call Tx Ty self x = static_cast Tx Ty x"

subsection \<open>DivideFunctor\<close>

record DivideFunctor =
  n_inv :: fp

text \<open>
  \<^verbatim>\<open>n_inv((T)(1.0 / n))\<close>: the literal \<^verbatim>\<open>1.0\<close> is a \<^verbatim>\<open>double\<close>, so \<open>n\<close> is
  converted to \<^verbatim>\<open>double\<close>, the division is a \<^verbatim>\<open>double\<close> division, and its result
  is cast to \<open>T\<close>.
\<close>

definition DivideFunctor_ctor :: "scalar_type \<Rightarrow> 32 word \<Rightarrow> DivideFunctor" where
  "DivideFunctor_ctor T n =
     \<lparr>n_inv = static_cast Float64 T (fdiv Float64 (fp_one Float64) (int_to_double n))\<rparr>"

definition DivideFunctor_call_ptr :: "scalar_type \<Rightarrow> DivideFunctor \<Rightarrow> fp list \<Rightarrow> fp option" where
  "DivideFunctor_call_ptr T self x =
     (case index x 0 of
        None \<Rightarrow> None
      | Some x0 \<Rightarrow> Some (fmul T x0 (n_inv self)))"

definition DivideFunctor_call :: "scalar_type \<Rightarrow> DivideFunctor \<Rightarrow> fp \<Rightarrow> fp" where
  "DivideFunctor_call T self x = fmul T x (n_inv self)"

text \<open>The value of type \<open>T\<close> that a literal such as \<^verbatim>\<open>20.0\<close> denotes.\<close>

definition literal :: "scalar_type \<Rightarrow> nat \<Rightarrow> fp" where
  "literal T n = (if n = 0 then fp_zero False else round_quot T False n 1 0)"

section \<open>Vocabulary of the properties\<close>

text \<open>
  \<open>narrower Tx Ty\<close>: the format of \<open>Ty\<close> has more exponent bits and more fraction
  bits than that of \<open>Tx\<close>. \<open>same_value Tx x Ty y\<close>: the finite \<open>x\<close> of type
  \<open>Tx\<close> and the finite \<open>y\<close> of type \<open>Ty\<close> have the same sign and the same
  magnitude \<open>sig * 2^ex\<close>, compared at their common smaller exponent.
\<close>

definition narrower :: "scalar_type \<Rightarrow> scalar_type \<Rightarrow> bool" where
  "narrower Tx Ty \<longleftrightarrow> ebits Tx < ebits Ty \<and> fbits Tx < fbits Ty"

definition same_value :: "scalar_type \<Rightarrow> fp \<Rightarrow> scalar_type \<Rightarrow> fp \<Rightarrow> bool" where
  "same_value Tx x Ty y \<longleftrightarrow>
     sign x = sign y \<and>
     (let e = min (ex Tx x) (ex Ty y)
      in sig Tx x * 2 ^ nat (ex Tx x - e) = sig Ty y * 2 ^ nat (ex Ty y - e))"

section \<open>Properties of the arithmetic\<close>

lemma bitlen_eq: "2 ^ k \<le> n \<Longrightarrow> n < 2 ^ Suc k \<Longrightarrow> bitlen n = Suc k"
proof (induction k arbitrary: n)
  case 0
  then have "n = 1" by simp
  then show ?case by (simp add: bitlen.simps)
next
  case (Suc k)
  have "2 ^ k \<le> n div 2" "n div 2 < 2 ^ Suc k" using Suc.prems by auto
  then have "bitlen (n div 2) = Suc k" by (rule Suc.IH)
  moreover have "n \<noteq> 0" using Suc.prems(1) by (intro notI) simp
  ultimately show ?case by (subst bitlen.simps) simp
qed

lemma bitlen_le: "n < 2 ^ k \<Longrightarrow> bitlen n \<le> k"
proof (induction k arbitrary: n)
  case 0
  then show ?case by (simp add: bitlen.simps)
next
  case (Suc k)
  have "n div 2 < 2 ^ k" using Suc.prems by auto
  then have "bitlen (n div 2) \<le> k" by (rule Suc.IH)
  then show ?case by (subst bitlen.simps) simp
qed

lemma bitlen_lower: "0 < n \<Longrightarrow> 2 ^ (bitlen n - 1) \<le> n"
proof (induction n rule: bitlen.induct)
  case (1 n)
  show ?case
  proof (cases "n div 2 = 0")
    case True
    then have "n = 1" using 1(2) by auto
    then show ?thesis by (simp add: bitlen.simps)
  next
    case False
    then have ih: "2 ^ (bitlen (n div 2) - 1) \<le> n div 2" using 1 by simp
    have pos: "0 < bitlen (n div 2)" using False by (subst bitlen.simps) simp
    have "bitlen n = Suc (bitlen (n div 2))" using 1(2) by (subst bitlen.simps) simp
    then have "2 ^ (bitlen n - 1) = 2 * 2 ^ (bitlen (n div 2) - 1)"
      using pos by (cases "bitlen (n div 2)") simp_all
    also have "\<dots> \<le> 2 * (n div 2)" using ih by simp
    also have "\<dots> \<le> n" by simp
    finally show ?thesis .
  qed
qed

lemma bitlen_pos: "0 < n \<Longrightarrow> 0 < bitlen n"
  by (subst bitlen.simps) simp

lemma bitlen_shift: "0 < n \<Longrightarrow> bitlen (n * 2 ^ j) = bitlen n + j"
proof (induction j)
  case 0
  then show ?case by simp
next
  case (Suc j)
  have "bitlen (n * 2 ^ Suc j) = Suc (bitlen ((n * 2 ^ Suc j) div 2))"
    using Suc.prems by (subst bitlen.simps) simp
  also have "(n * 2 ^ Suc j) div 2 = n * 2 ^ j" by simp
  finally show ?case using Suc by simp
qed

lemma rne_exact: "0 < D \<Longrightarrow> rne (m * D) D = m"
  by (simp add: rne_def)

lemma sign_fp_inf: "sign (fp_inf T s) = s"
  by (simp add: fp_inf_def)

lemma bias_pos: "1 \<le> bias T"
  by (cases T) (simp_all add: bias_def)

lemma emax_bias: "emax T = 2 * bias T + 1"
  by (cases T) (simp_all add: bias_def emax_def)

lemma round_quot_exact:
  assumes m: "0 < m" "m < 2 ^ Suc (fbits T)"
    and E: "1 \<le> E" "E < emax T"
    and sub: "m < 2 ^ fbits T \<Longrightarrow> E = 1"
  shows "round_quot T s (m * 2 ^ j) 1 (int E - int (bias T) - int (fbits T) - int j) =
         FP s (((E - 1) * 2 ^ fbits T + m) div 2 ^ fbits T)
              (((E - 1) * 2 ^ fbits T + m) mod 2 ^ fbits T)"
proof -
  define e where "e = int E - int (bias T) - int (fbits T) - int j"
  define t where "t = int (bitlen (m * 2 ^ j)) - int (bitlen 1)"
  have b1: "bitlen 1 = 1" "bitlen (Suc 0) = Suc 0" by (simp_all add: bitlen.simps)
  have t: "t = int (bitlen m) + int j - 1"
    using m(1) by (simp add: t_def bitlen_shift b1)
  have t0: "0 \<le> t" using bitlen_pos [OF m(1)] by (simp add: t)
  have natt: "nat t = bitlen m - 1 + j" using bitlen_pos [OF m(1)] by (simp add: t)
  have "(2::nat) ^ nat t = 2 ^ (bitlen m - 1) * 2 ^ j" by (simp add: natt power_add)
  also have "\<dots> \<le> m * 2 ^ j" using bitlen_lower [OF m(1)] by simp
  finally have cond: "1 * 2 ^ nat t \<le> m * 2 ^ j * 2 ^ nat (- t)" using t0 by simp
  have k: "max (t + e) (1 - int (bias T)) = int E - int (bias T)"
  proof (cases "m < 2 ^ fbits T")
    case True
    then have "bitlen m \<le> fbits T" by (rule bitlen_le)
    moreover have "E = 1" using True by (rule sub)
    ultimately show ?thesis by (simp add: t e_def)
  next
    case False
    then have "bitlen m = Suc (fbits T)" using m(2) by (intro bitlen_eq) simp_all
    then show ?thesis using E(1) by (simp add: t e_def)
  qed
  have sh: "e - (int E - int (bias T)) + int (fbits T) = - int j" by (simp add: e_def)
  have bits: "nat (int E - 1) = E - 1" by simp
  have "(E - 1) * 2 ^ fbits T + m < (E - 1) * 2 ^ fbits T + 2 * 2 ^ fbits T"
    using m(2) by simp
  also have "\<dots> = (E + 1) * 2 ^ fbits T" using E(1) by (simp add: algebra_simps)
  also have "\<dots> \<le> emax T * 2 ^ fbits T"
  proof (rule mult_le_mono1)
    show "E + 1 \<le> emax T" using E(2) by simp
  qed
  finally have noov: "\<not> emax T * 2 ^ fbits T \<le> (E - 1) * 2 ^ fbits T + m" by simp
  have q: "rne (m * 2 ^ j) (2 ^ j) = m"
    using rne_exact [of "2 ^ j" m] by simp
  show ?thesis
    unfolding round_quot_def Let_def e_def [symmetric] t_def [symmetric]
    using cond noov by (simp add: k sh bits q)
qed


lemma bitlen_0: "bitlen 0 = 0"
  by (simp add: bitlen.simps)

lemma bitlen_1: "bitlen 1 = 1" "bitlen (Suc 0) = 1"
  by (simp_all add: bitlen.simps)

lemma bitlen_Bit0: "bitlen (numeral (Num.Bit0 k)) = bitlen (numeral k) + 1"
  by (subst bitlen.simps) simp

lemma bitlen_Bit1: "bitlen (numeral (Num.Bit1 k)) = bitlen (numeral k) + 1"
  by (subst bitlen.simps) simp

lemmas fp_eval = round_quot_def rne_def Let_def bias_def emax_def fp_inf_def fp_zero_def
  fp_one_def qnan_def is_nan_def is_inf_def is_zero_def sig_def ex_def
  bitlen_0 bitlen_1 bitlen_Bit0 bitlen_Bit1

lemma fmul_one:
  assumes v: "valid T x" and f: "is_finite T x"
  shows "fmul T x (fp_one T) = x"
proof (cases x)
  case (FP s xe fr)
  have fr: "fr < 2 ^ fbits T" using v by (simp add: valid_def FP)
  have xe: "xe < emax T" using f by (simp add: is_finite_def FP)
  have b: "1 \<le> bias T" by (rule bias_pos)
  have one: "\<not> is_nan T (fp_one T)" "\<not> is_inf T (fp_one T)" "\<not> is_zero (fp_one T)"
    "sig T (fp_one T) = 2 ^ fbits T" "ex T (fp_one T) = - int (fbits T)" "sign (fp_one T) = False"
    using b by (simp_all add: is_nan_def is_inf_def is_zero_def fp_one_def emax_bias sig_def ex_def)
  have x: "\<not> is_nan T x" "\<not> is_inf T x" using xe by (simp_all add: is_nan_def is_inf_def FP)
  show ?thesis
  proof (cases "is_zero x")
    case True
    then show ?thesis using x one by (simp add: fmul_def fp_zero_def is_zero_def FP)
  next
    case False
    define E where "E = max xe 1"
    define m where "m = sig T x"
    have m0: "0 < m" using False by (auto simp: m_def sig_def is_zero_def FP)
    have m1: "m < 2 ^ Suc (fbits T)" using fr by (simp add: m_def sig_def FP)
    have E1: "1 \<le> E" "E < emax T" using xe b by (simp_all add: E_def emax_bias)
    have sub: "m < 2 ^ fbits T \<Longrightarrow> E = 1" by (auto simp: m_def sig_def E_def FP split: if_splits)
    have ex_x: "ex T x = int E - int (bias T) - int (fbits T)"
      by (simp add: ex_def E_def FP)
    have e: "ex T x + ex T (fp_one T) = int E - int (bias T) - int (fbits T) - int (fbits T)"
      unfolding ex_x one(5) by simp
    have "fmul T x (fp_one T) = round_quot T s (m * 2 ^ fbits T) 1 (ex T x + ex T (fp_one T))"
      using False x one by (simp add: fmul_def m_def FP)
    also have "\<dots> = FP s (((E - 1) * 2 ^ fbits T + m) div 2 ^ fbits T)
                         (((E - 1) * 2 ^ fbits T + m) mod 2 ^ fbits T)"
      unfolding e using m0 m1 E1 sub by (rule round_quot_exact)
    also have "\<dots> = FP s xe fr"
    proof (cases "xe = 0")
      case True
      then show ?thesis using fr by (simp add: E_def m_def sig_def FP)
    next
      case False
      then have "(E - 1) * 2 ^ fbits T + m = xe * 2 ^ fbits T + fr"
        by (cases xe) (simp_all add: E_def m_def sig_def FP)
      then show ?thesis using fr by simp
    qed
    finally show ?thesis by (simp add: FP)
  qed
qed

lemma n_inv_1: "n_inv (DivideFunctor_ctor T 1) = fp_one T"
  by (cases T) (simp_all add: DivideFunctor_ctor_def int_to_double_def fdiv_def static_cast_def convert_def fp_eval)

lemma n_inv_0: "n_inv (DivideFunctor_ctor T 0) = fp_inf T False"
  by (cases T) (simp_all add: DivideFunctor_ctor_def int_to_double_def fdiv_def static_cast_def convert_def fp_eval)

lemma literal_eval:
  "literal T 2 = FP False (bias T + 1) 0"
  "literal T 4 = FP False (bias T + 2) 0"
  "literal T 5 = FP False (bias T + 2) (2 ^ (fbits T - 2))"
  "literal T 6 = FP False (bias T + 2) (2 ^ (fbits T - 1))"
  "literal T 8 = FP False (bias T + 3) 0"
  "literal T 12 = FP False (bias T + 3) (2 ^ (fbits T - 1))"
  "literal T 14 = FP False (bias T + 3) (3 * 2 ^ (fbits T - 2))"
  "literal T 20 = FP False (bias T + 4) (2 ^ (fbits T - 2))"
  by (cases T; simp add: literal_def fp_eval)+

lemma fadd_0_2: "fadd T (fp_zero False) (literal T 2) = literal T 2"
  unfolding literal_eval fadd_def Let_def by (cases T) (simp_all add: fp_eval)

lemma fadd_2_4: "fadd T (literal T 2) (literal T 4) = literal T 6"
  unfolding literal_eval fadd_def Let_def by (cases T) (simp_all add: fp_eval)

lemma fadd_6_6: "fadd T (literal T 6) (literal T 6) = literal T 12"
  unfolding literal_eval fadd_def Let_def by (cases T) (simp_all add: fp_eval)

lemma fadd_12_8: "fadd T (literal T 12) (literal T 8) = literal T 20"
  unfolding literal_eval fadd_def Let_def by (cases T) (simp_all add: fp_eval)

lemma fadd_6_8: "fadd T (literal T 6) (literal T 8) = literal T 14"
  unfolding literal_eval fadd_def Let_def by (cases T) (simp_all add: fp_eval)

lemma fadd_6_14: "fadd T (literal T 6) (literal T 14) = literal T 20"
  unfolding literal_eval fadd_def Let_def by (cases T) (simp_all add: fp_eval)

lemma n_inv_4: "n_inv (DivideFunctor_ctor T 4) = FP False (bias T - 2) 0"
  by (cases T)
    (simp_all add: DivideFunctor_ctor_def int_to_double_def fdiv_def static_cast_def
      convert_def fp_eval)

lemma fmul_20_quarter: "fmul T (literal T 20) (FP False (bias T - 2) 0) = literal T 5"
  unfolding literal_eval by (cases T) (simp_all add: fmul_def fp_eval)

lemma rne_one: "rne N 1 = N" "rne N (Suc 0) = N"
  by (simp_all add: rne_def)

lemma bitlen_upper: "n < 2 ^ bitlen n"
proof (induction n rule: bitlen.induct)
  case (1 n)
  show ?case
  proof (cases "n = 0")
    case True
    then show ?thesis by simp
  next
    case False
    then have "n div 2 < 2 ^ bitlen (n div 2)" by (rule 1)
    then have "n < 2 * 2 ^ bitlen (n div 2)" by linarith
    moreover have "bitlen n = Suc (bitlen (n div 2))" using False by (subst bitlen.simps) simp
    ultimately show ?thesis by simp
  qed
qed

lemma scaled_sig_bounds:
  assumes a: "0 < a" and L: "bitlen a \<le> F + 1"
  shows "2 ^ F \<le> a * 2 ^ (F + 1 - bitlen a)" and "a * 2 ^ (F + 1 - bitlen a) < 2 * 2 ^ F"
proof -
  define sh where "sh = F + 1 - bitlen a"
  have Lpos: "0 < bitlen a" using a by (rule bitlen_pos)
  have lo1: "2 ^ (bitlen a - 1) \<le> a" using a by (rule bitlen_lower)
  have "(2::nat) ^ F = 2 ^ (bitlen a - 1) * 2 ^ sh"
    using Lpos L by (simp add: sh_def power_add [symmetric])
  also have "\<dots> \<le> a * 2 ^ sh" using lo1 by (rule mult_le_mono1)
  finally show "2 ^ F \<le> a * 2 ^ (F + 1 - bitlen a)" by (simp add: sh_def)
  have "a * 2 ^ sh < 2 ^ bitlen a * 2 ^ sh" using bitlen_upper [of a] by (rule mult_less_mono1) simp
  also have "(2::nat) ^ bitlen a * 2 ^ sh = 2 * 2 ^ F"
    using L by (simp add: sh_def power_add [symmetric])
  finally show "a * 2 ^ (F + 1 - bitlen a) < 2 * 2 ^ F" by (simp add: sh_def)
qed

lemma round_quot_normal:
  assumes a: "0 < a" and L: "bitlen a \<le> fbits T + 1"
    and lo: "1 - int (bias T) \<le> int (bitlen a) - 1 + e"
    and hi: "int (bitlen a) - 1 + e \<le> int (bias T)"
  shows "round_quot T s a 1 e =
         FP s (nat (int (bitlen a) - 1 + e + int (bias T)))
              (a * 2 ^ (fbits T + 1 - bitlen a) - 2 ^ fbits T)"
proof -
  define L where "L = bitlen a"
  define sh where "sh = fbits T + 1 - L"
  define K where "K = nat (int L - 1 + e + int (bias T))"
  have Lpos: "0 < L" using a by (simp add: L_def bitlen_pos)
  have LF: "L \<le> fbits T + 1" using L by (simp add: L_def)
  define fl where "fl = int (bitlen a) - int (bitlen 1)"
  have fl: "fl = int L - 1" by (simp add: fl_def L_def bitlen_1)
  have natfl: "nat fl = L - 1" "nat (- fl) = 0" using Lpos by (simp_all add: fl)
  have cond: "1 * 2 ^ nat fl \<le> a * 2 ^ nat (- fl)"
    unfolding natfl using bitlen_lower [OF a] by (simp add: L_def)
  have k: "max (fl + e) (1 - int (bias T)) = fl + e"
    using lo by (simp add: fl L_def)
  have shn: "nat (int (fbits T) - fl) = sh" "nat (fl - int (fbits T)) = 0"
    using Lpos LF by (simp_all add: sh_def fl)
  have Kpos: "1 \<le> K" using lo by (simp add: K_def L_def)
  have Kk: "nat (fl + e - (1 - int (bias T))) = K - 1"
    using lo by (simp add: K_def L_def fl)
  have Khi: "K + 1 \<le> emax T" using hi lo by (simp add: K_def L_def emax_bias)
  have qlo: "2 ^ fbits T \<le> a * 2 ^ sh" and qhi: "a * 2 ^ sh < 2 * 2 ^ fbits T"
    using scaled_sig_bounds [OF a L] by (simp_all add: sh_def L_def)
  define r where "r = a * 2 ^ sh - 2 ^ fbits T"
  have q: "a * 2 ^ sh = 2 ^ fbits T + r" and r: "r < 2 ^ fbits T"
    using qlo qhi by (simp_all add: r_def)
  have bits: "(K - Suc 0) * 2 ^ fbits T + (2 ^ fbits T + r) = K * 2 ^ fbits T + r"
    using Kpos by (cases K) simp_all
  have "K * 2 ^ fbits T + r < (K + 1) * 2 ^ fbits T" using r by simp
  also have "\<dots> \<le> emax T * 2 ^ fbits T" using Khi by (rule mult_le_mono1)
  finally have noov: "\<not> emax T * 2 ^ fbits T \<le> K * 2 ^ fbits T + r" by simp
  have "round_quot T s a 1 e = FP s ((K * 2 ^ fbits T + r) div 2 ^ fbits T)
      ((K * 2 ^ fbits T + r) mod 2 ^ fbits T)"
    unfolding round_quot_def Let_def fl_def [symmetric]
    using cond noov by (simp add: k shn Kk rne_one q bits)
  also have "\<dots> = FP s K r" using r by simp
  finally show ?thesis by (simp add: K_def r_def sh_def L_def)
qed


lemma narrower_facts:
  assumes "narrower Tx Ty"
  shows "bias Tx + fbits Tx \<le> bias Ty" and "fbits Tx \<le> fbits Ty"
  using assms by (cases Tx; cases Ty; simp add: narrower_def bias_def)+

lemma sig_pos: "\<not> is_zero x \<Longrightarrow> 0 < sig T x"
  by (auto simp: is_zero_def sig_def)

lemma sig_less: "valid T x \<Longrightarrow> sig T x < 2 ^ (fbits T + 1)"
  by (simp add: valid_def sig_def)

lemma ex_bounds:
  assumes "is_finite T x"
  shows "1 - int (bias T) - int (fbits T) \<le> ex T x" and "ex T x \<le> int (bias T) - int (fbits T)"
  using assms bias_pos [of T] by (simp_all add: ex_def is_finite_def emax_bias)

lemma convert_widen:
  assumes n: "narrower Tx Ty" and v: "valid Tx x" and f: "is_finite Tx x" and z: "\<not> is_zero x"
  shows "convert Tx Ty x =
         FP (sign x) (nat (int (bitlen (sig Tx x)) - 1 + ex Tx x + int (bias Ty)))
           (sig Tx x * 2 ^ (fbits Ty + 1 - bitlen (sig Tx x)) - 2 ^ fbits Ty)"
proof -
  have a: "0 < sig Tx x" using z by (rule sig_pos)
  have Lx: "bitlen (sig Tx x) \<le> fbits Tx + 1" using sig_less [OF v] by (rule bitlen_le)
  then have L: "bitlen (sig Tx x) \<le> fbits Ty + 1" using narrower_facts(2) [OF n] by simp
  have Lpos: "0 < bitlen (sig Tx x)" using a by (rule bitlen_pos)
  have lo: "1 - int (bias Ty) \<le> int (bitlen (sig Tx x)) - 1 + ex Tx x"
    using ex_bounds(1) [OF f] narrower_facts(1) [OF n] Lpos by simp
  have hi: "int (bitlen (sig Tx x)) - 1 + ex Tx x \<le> int (bias Ty)"
    using ex_bounds(2) [OF f] narrower_facts(1) [OF n] Lx by simp
  have "convert Tx Ty x = round_quot Ty (sign x) (sig Tx x) 1 (ex Tx x)"
    using f z by (simp add: convert_def is_nan_def is_inf_def is_finite_def)
  also have "\<dots> = FP (sign x) (nat (int (bitlen (sig Tx x)) - 1 + ex Tx x + int (bias Ty)))
           (sig Tx x * 2 ^ (fbits Ty + 1 - bitlen (sig Tx x)) - 2 ^ fbits Ty)"
    using a L lo hi by (rule round_quot_normal)
  finally show ?thesis .
qed

lemma static_cast_narrower: "narrower Tx Ty \<Longrightarrow> static_cast Tx Ty x = convert Tx Ty x"
  by (cases Tx; cases Ty; simp add: narrower_def static_cast_def)

lemma convert_zero: "is_finite Tx x \<Longrightarrow> is_zero x \<Longrightarrow> convert Tx Ty x = fp_zero (sign x)"
  by (simp add: convert_def is_nan_def is_inf_def is_finite_def)

lemma static_cast_widen:
  assumes n: "narrower Tx Ty" and v: "valid Tx x" and f: "is_finite Tx x"
  shows "is_finite Ty (static_cast Tx Ty x) \<and> same_value Tx x Ty (static_cast Tx Ty x)"
proof (cases "is_zero x")
  case True
  have "static_cast Tx Ty x = fp_zero (sign x)"
    using f True by (simp add: static_cast_narrower [OF n] convert_zero)
  then show ?thesis
    using True by (simp add: is_finite_def same_value_def fp_zero_def sig_def is_zero_def emax_bias)
next
  case False
  define a where "a = sig Tx x"
  define k where "k = int (bitlen a) - 1 + ex Tx x"
  define sh where "sh = fbits Ty + 1 - bitlen a"
  define y where "y = FP (sign x) (nat (k + int (bias Ty))) (a * 2 ^ sh - 2 ^ fbits Ty)"
  have y: "static_cast Tx Ty x = y"
    using convert_widen [OF n v f False]
    by (simp add: static_cast_narrower [OF n] y_def k_def a_def sh_def)
  have a: "0 < a" using False by (simp add: a_def sig_pos)
  have Lx: "bitlen a \<le> fbits Tx + 1" unfolding a_def using sig_less [OF v] by (rule bitlen_le)
  then have L: "bitlen a \<le> fbits Ty + 1" using narrower_facts(2) [OF n] by simp
  have Lpos: "0 < bitlen a" using a by (rule bitlen_pos)
  have lo: "1 - int (bias Ty) \<le> k"
    using ex_bounds(1) [OF f] narrower_facts(1) [OF n] Lpos by (simp add: k_def)
  have hi: "k \<le> int (bias Ty)"
    using ex_bounds(2) [OF f] narrower_facts(1) [OF n] Lx by (simp add: k_def)
  have q: "2 ^ fbits Ty \<le> a * 2 ^ sh"
    using scaled_sig_bounds(1) [OF a L] by (simp add: sh_def)
  have expo: "expo y = nat (k + int (bias Ty))" "expo y \<noteq> 0" "expo y < emax Ty"
    using lo hi by (simp_all add: y_def emax_bias)
  have sigy: "sig Ty y = a * 2 ^ sh" using expo(2) q by (simp add: sig_def y_def)
  have exy: "ex Ty y = k - int (fbits Ty)" using lo by (simp add: ex_def y_def)
  have d: "ex Tx x - ex Ty y = int sh"
    using L Lpos by (simp add: exy k_def sh_def)
  then have m: "min (ex Tx x) (ex Ty y) = ex Ty y" by simp
  have sy: "sign y = sign x" by (simp add: y_def)
  have "same_value Tx x Ty y"
    unfolding same_value_def Let_def m using d by (simp add: sigy a_def sy)
  moreover have "is_finite Ty y" using expo(3) by (simp add: is_finite_def)
  ultimately show ?thesis by (simp add: y)
qed

lemma rne_scale: "0 < c \<Longrightarrow> rne (N * c) (D * c) = rne N D"
proof -
  assume c: "0 < c"
  have d: "(N * c) div (D * c) = N div D" using c by simp
  have m: "(N * c) mod (D * c) = (N mod D) * c" using c by (simp add: mult_mod_left mult.commute)
  have l: "2 * (N mod D * c) < D * c \<longleftrightarrow> 2 * (N mod D) < D"
    using c by (metis mult.assoc mult_less_cancel2)
  have g: "D * c < 2 * (N mod D * c) \<longleftrightarrow> D < 2 * (N mod D)"
    using c by (metis mult.assoc mult_less_cancel2)
  show ?thesis unfolding rne_def Let_def d m l g ..
qed

lemma rne_shift:
  "rne (a * 2 ^ j * 2 ^ nat sh) (2 ^ nat (- sh)) =
   rne (a * 2 ^ nat (sh + int j)) (2 ^ nat (- (sh + int j)))"
proof -
  consider "0 \<le> sh" | "sh < 0" "sh + int j \<le> 0" | "sh < 0" "0 < sh + int j" by linarith
  then show ?thesis
  proof cases
    case 1
    then have "nat (sh + int j) = nat sh + j" by simp
    then show ?thesis using 1 by (simp add: power_add mult.commute mult.left_commute)
  next
    case 2
    define d where "d = nat (- (sh + int j))"
    have n: "nat sh = 0" "nat (sh + int j) = 0" "nat (- sh) = d + j" using 2 by (simp_all add: d_def)
    have "rne (a * 2 ^ j) (2 ^ d * 2 ^ j) = rne a (2 ^ d)" by (rule rne_scale) simp
    then show ?thesis
      unfolding d_def [symmetric] n by (simp add: power_add)
  next
    case 3
    define u where "u = nat (sh + int j)"
    define d where "d = nat (- sh)"
    have n: "nat sh = 0" "nat (- (sh + int j)) = 0" "j = u + d" using 3 by (simp_all add: u_def d_def)
    have "rne (a * 2 ^ u * 2 ^ d) (1 * 2 ^ d) = rne (a * 2 ^ u) 1" by (rule rne_scale) simp
    then show ?thesis
      unfolding u_def [symmetric] d_def [symmetric] n(1,2) by (simp add: n(3) power_add mult.assoc)
  qed
qed

lemma round_quot_one:
  assumes a: "0 < a"
  shows "round_quot T s a 1 e =
    (if emax T * 2 ^ fbits T \<le>
          nat (max (int (bitlen a) - 1 + e) (1 - int (bias T)) - (1 - int (bias T))) * 2 ^ fbits T +
          rne (a * 2 ^ nat (e - max (int (bitlen a) - 1 + e) (1 - int (bias T)) + int (fbits T)))
              (2 ^ nat (- (e - max (int (bitlen a) - 1 + e) (1 - int (bias T)) + int (fbits T))))
     then fp_inf T s
     else FP s
       ((nat (max (int (bitlen a) - 1 + e) (1 - int (bias T)) - (1 - int (bias T))) * 2 ^ fbits T +
          rne (a * 2 ^ nat (e - max (int (bitlen a) - 1 + e) (1 - int (bias T)) + int (fbits T)))
              (2 ^ nat (- (e - max (int (bitlen a) - 1 + e) (1 - int (bias T)) + int (fbits T)))))
         div 2 ^ fbits T)
       ((nat (max (int (bitlen a) - 1 + e) (1 - int (bias T)) - (1 - int (bias T))) * 2 ^ fbits T +
          rne (a * 2 ^ nat (e - max (int (bitlen a) - 1 + e) (1 - int (bias T)) + int (fbits T)))
              (2 ^ nat (- (e - max (int (bitlen a) - 1 + e) (1 - int (bias T)) + int (fbits T)))))
         mod 2 ^ fbits T))"
proof -
  define fl where "fl = int (bitlen a) - int (bitlen 1)"
  have fl: "fl = int (bitlen a) - 1" by (simp add: fl_def bitlen_1)
  have natfl: "nat fl = bitlen a - 1" "nat (- fl) = 0" using bitlen_pos [OF a] by (simp_all add: fl)
  have cond: "1 * 2 ^ nat fl \<le> a * 2 ^ nat (- fl)"
    unfolding natfl using bitlen_lower [OF a] by simp
  have "round_quot T s a 1 e =
    (let emin = 1 - int (bias T); k = max (fl + e) emin; sh = e - k + int (fbits T);
         q = rne (a * 2 ^ nat sh) (1 * 2 ^ nat (- sh));
         bits = nat (k - emin) * 2 ^ fbits T + q
     in if emax T * 2 ^ fbits T \<le> bits then fp_inf T s
        else FP s (bits div 2 ^ fbits T) (bits mod 2 ^ fbits T))"
    unfolding round_quot_def fl_def [symmetric] Let_def if_P [OF cond] ..
  then show ?thesis unfolding Let_def fl by simp
qed

lemma round_quot_scale:
  assumes a: "0 < a"
  shows "round_quot T s (a * 2 ^ j) 1 e = round_quot T s a 1 (e + int j)"
proof -
  have a': "0 < a * 2 ^ j" using a by simp
  define k where "k = max (int (bitlen a) - 1 + (e + int j)) (1 - int (bias T))"
  have k': "max (int (bitlen (a * 2 ^ j)) - 1 + e) (1 - int (bias T)) = k"
    using a by (simp add: k_def bitlen_shift add.commute add.left_commute)
  have q: "rne (a * 2 ^ j * 2 ^ nat (e - k + int (fbits T)))
               (2 ^ nat (- (e - k + int (fbits T)))) =
           rne (a * 2 ^ nat (e + int j - k + int (fbits T)))
               (2 ^ nat (- (e + int j - k + int (fbits T))))"
    using rne_shift [of a j "e - k + int (fbits T)"] by (simp add: algebra_simps)
  show ?thesis
    unfolding round_quot_one [OF a'] round_quot_one [OF a] k' k_def [symmetric] q ..
qed

lemma round_quot_sig:
  assumes v: "valid T y" and f: "is_finite T y" and z: "\<not> is_zero y"
  shows "round_quot T s (sig T y * 2 ^ j) 1 (ex T y - int j) = FP s (expo y) (frac y)"
proof -
  define E where "E = max (expo y) 1"
  define m where "m = sig T y"
  have fr: "frac y < 2 ^ fbits T" using v by (simp add: valid_def)
  have m0: "0 < m" unfolding m_def using z by (rule sig_pos)
  have m1: "m < 2 ^ Suc (fbits T)" using sig_less [OF v] by (simp add: m_def)
  have E1: "1 \<le> E" "E < emax T" using f bias_pos [of T] by (simp_all add: E_def is_finite_def emax_bias)
  have sub: "m < 2 ^ fbits T \<Longrightarrow> E = 1" by (auto simp: m_def sig_def E_def split: if_splits)
  have e: "ex T y - int j = int E - int (bias T) - int (fbits T) - int j"
    by (simp add: ex_def E_def)
  have "round_quot T s (m * 2 ^ j) 1 (ex T y - int j) =
      FP s (((E - 1) * 2 ^ fbits T + m) div 2 ^ fbits T) (((E - 1) * 2 ^ fbits T + m) mod 2 ^ fbits T)"
    unfolding e using m0 m1 E1 sub by (rule round_quot_exact)
  also have "\<dots> = FP s (expo y) (frac y)"
  proof (cases "expo y = 0")
    case True
    then show ?thesis using fr by (simp add: E_def m_def sig_def)
  next
    case False
    then have "(E - 1) * 2 ^ fbits T + m = expo y * 2 ^ fbits T + frac y"
      by (cases "expo y") (simp_all add: E_def m_def sig_def)
    then show ?thesis using fr by simp
  qed
  finally show ?thesis by (simp add: m_def)
qed

lemma same_value_at:
  assumes cx: "c \<le> ex Tx x" and cy: "c \<le> ex Ty y"
  shows "same_value Tx x Ty y \<longleftrightarrow>
         sign x = sign y \<and>
         sig Tx x * 2 ^ nat (ex Tx x - c) = sig Ty y * 2 ^ nat (ex Ty y - c)"
proof -
  define m where "m = min (ex Tx x) (ex Ty y)"
  define d where "d = nat (m - c)"
  have x: "nat (ex Tx x - c) = nat (ex Tx x - m) + d"
    and y: "nat (ex Ty y - c) = nat (ex Ty y - m) + d"
    using cx cy by (simp_all add: m_def d_def)
  have "sig Tx x * 2 ^ nat (ex Tx x - c) = sig Ty y * 2 ^ nat (ex Ty y - c) \<longleftrightarrow>
        sig Tx x * 2 ^ nat (ex Tx x - m) * 2 ^ d = sig Ty y * 2 ^ nat (ex Ty y - m) * 2 ^ d"
    unfolding x y by (simp add: power_add mult.assoc)
  also have "\<dots> \<longleftrightarrow> sig Tx x * 2 ^ nat (ex Tx x - m) = sig Ty y * 2 ^ nat (ex Ty y - m)"
    by simp
  finally show ?thesis by (simp add: same_value_def Let_def m_def)
qed

lemma same_value_refl: "same_value T x T x"
  by (simp add: same_value_def)

lemma same_value_sym: "same_value Tx x Ty y \<Longrightarrow> same_value Ty y Tx x"
  by (simp add: same_value_def Let_def min.commute)

lemma same_value_trans:
  assumes xy: "same_value Tx x Ty y" and yz: "same_value Ty y Tz z"
  shows "same_value Tx x Tz z"
proof -
  define c where "c = min (ex Tx x) (min (ex Ty y) (ex Tz z))"
  have c: "c \<le> ex Tx x" "c \<le> ex Ty y" "c \<le> ex Tz z" by (simp_all add: c_def)
  show ?thesis
    using xy yz
    unfolding same_value_at [OF c(1) c(2)] same_value_at [OF c(2) c(3)] same_value_at [OF c(1) c(3)]
    by simp
qed

lemma sig_zero_iff: "sig T x = 0 \<longleftrightarrow> is_zero x"
  by (simp add: sig_def is_zero_def)

lemma convert_exact:
  assumes fx: "is_finite Tx x"
    and vy: "valid Ty y" and fy: "is_finite Ty y"
    and sv: "same_value Tx x Ty y"
  shows "convert Tx Ty x = y"
proof (cases "is_zero x")
  case True
  then have "sig Ty y * 2 ^ nat (ex Ty y - min (ex Tx x) (ex Ty y)) = 0"
    using sv by (simp add: same_value_def Let_def sig_def is_zero_def)
  then have "is_zero y" by (simp add: sig_zero_iff)
  then have "y = fp_zero (sign x)"
    using sv by (cases y) (simp add: is_zero_def fp_zero_def same_value_def)
  then show ?thesis using fx True by (simp add: convert_zero)
next
  case False
  have zy: "\<not> is_zero y"
  proof
    assume "is_zero y"
    then have "sig Tx x * 2 ^ nat (ex Tx x - min (ex Tx x) (ex Ty y)) = 0"
      using sv by (simp add: same_value_def Let_def sig_def is_zero_def)
    then show False using False by (simp add: sig_zero_iff)
  qed
  have s: "sign x = sign y" using sv by (simp add: same_value_def)
  have c: "convert Tx Ty x = round_quot Ty (sign y) (sig Tx x) 1 (ex Tx x)"
    using fx False by (simp add: convert_def is_nan_def is_inf_def is_finite_def s)
  have "round_quot Ty (sign y) (sig Tx x) 1 (ex Tx x) = FP (sign y) (expo y) (frac y)"
  proof (cases "ex Ty y \<le> ex Tx x")
    case True
    define j where "j = nat (ex Tx x - ex Ty y)"
    have m: "min (ex Tx x) (ex Ty y) = ex Ty y" using True by simp
    have e: "sig Tx x * 2 ^ j = sig Ty y"
      using sv by (simp add: same_value_def Let_def m j_def)
    have "round_quot Ty (sign y) (sig Tx x) 1 (ex Tx x) =
        round_quot Ty (sign y) (sig Tx x) 1 (ex Ty y + int j)"
      using True by (simp add: j_def)
    also have "\<dots> = round_quot Ty (sign y) (sig Tx x * 2 ^ j) 1 (ex Ty y)"
      using sig_pos [OF False] by (rule round_quot_scale [symmetric])
    also have "\<dots> = round_quot Ty (sign y) (sig Ty y * 2 ^ 0) 1 (ex Ty y - int 0)"
      by (simp add: e)
    also have "\<dots> = FP (sign y) (expo y) (frac y)"
      using vy fy zy by (rule round_quot_sig)
    finally show ?thesis .
  next
    case False
    define j where "j = nat (ex Ty y - ex Tx x)"
    have m: "min (ex Tx x) (ex Ty y) = ex Tx x" using False by simp
    have e: "sig Tx x = sig Ty y * 2 ^ j"
      using sv by (simp add: same_value_def Let_def m j_def)
    have "round_quot Ty (sign y) (sig Tx x) 1 (ex Tx x) =
        round_quot Ty (sign y) (sig Ty y * 2 ^ j) 1 (ex Ty y - int j)"
      using False by (simp add: e j_def)
    also have "\<dots> = FP (sign y) (expo y) (frac y)"
      using vy fy zy by (rule round_quot_sig)
    finally show ?thesis .
  qed
  then show ?thesis by (simp add: c)
qed

lemma static_cast_widen_valid:
  assumes n: "narrower Tx Ty" and v: "valid Tx x" and f: "is_finite Tx x"
  shows "valid Ty (static_cast Tx Ty x)"
proof (cases "is_zero x")
  case True
  then show ?thesis
    using f by (simp add: static_cast_narrower [OF n] convert_zero valid_def fp_zero_def)
next
  case False
  have a: "0 < sig Tx x" using False by (rule sig_pos)
  have "bitlen (sig Tx x) \<le> fbits Tx + 1" using sig_less [OF v] by (rule bitlen_le)
  then have L: "bitlen (sig Tx x) \<le> fbits Ty + 1" using narrower_facts(2) [OF n] by simp
  have k: "int (bitlen (sig Tx x)) - 1 + ex Tx x \<le> int (bias Ty)"
    using ex_bounds(2) [OF f] narrower_facts(1) [OF n] \<open>bitlen (sig Tx x) \<le> fbits Tx + 1\<close>
    by simp
  have "sig Tx x * 2 ^ (fbits Ty + 1 - bitlen (sig Tx x)) - 2 ^ fbits Ty < 2 ^ fbits Ty"
    using scaled_sig_bounds [OF a L] by simp
  moreover have "nat (int (bitlen (sig Tx x)) - 1 + ex Tx x + int (bias Ty)) \<le> emax Ty"
    using k by (simp add: emax_bias)
  ultimately show ?thesis
    by (simp add: static_cast_narrower [OF n] convert_widen [OF n v f False] valid_def)
qed

lemma same_value_eq:
  assumes vx: "valid T x" and fx: "is_finite T x" and vy: "valid T y" and fy: "is_finite T y"
    and sv: "same_value T x T y"
  shows "x = y"
proof -
  have "convert T T x = y" using fx vy fy sv by (rule convert_exact)
  moreover have "convert T T x = x" using fx vx fx same_value_refl by (rule convert_exact)
  ultimately show ?thesis by simp
qed

lemma static_cast_exact:
  assumes vx: "valid Tx x" and fx: "is_finite Tx x"
    and vy: "valid Ty y" and fy: "is_finite Ty y"
    and sv: "same_value Tx x Ty y"
  shows "static_cast Tx Ty x = y"
proof (cases "Tx = Ty")
  case True
  then have "x = y" using vx fx vy fy sv by (simp add: same_value_eq)
  then show ?thesis using True by (simp add: static_cast_def)
next
  case False
  show ?thesis
  proof (cases "Tx = Float64 \<and> Ty = Float16")
    case True
    define y' where "y' = static_cast Float16 Float32 y"
    have n: "narrower Float16 Float32" by (simp add: narrower_def)
    have vy': "valid Float32 y'" and fy': "is_finite Float32 y'"
      and s': "same_value Float16 y Float32 y'"
      using static_cast_widen_valid [OF n] static_cast_widen [OF n] vy fy True
      by (simp_all add: y'_def)
    have "same_value Float64 x Float32 y'" using sv s' True by (auto intro: same_value_trans)
    then have 1: "convert Float64 Float32 x = y'"
      using fx vy' fy' True by (simp add: convert_exact)
    have 2: "convert Float32 Float16 y' = y"
      using fy' vy fy same_value_sym [OF s'] True by (simp add: convert_exact)
    show ?thesis using True by (simp add: static_cast_def 1 2)
  next
    case F: False
    have "convert Tx Ty x = y" using fx vy fy sv by (rule convert_exact)
    moreover have "static_cast Tx Ty x = convert Tx Ty x"
      unfolding static_cast_def using False F by (simp only: if_False)
    ultimately show ?thesis by simp
  qed
qed

section \<open>The claims\<close>

text \<open>
  C1, as the code has it: \<^verbatim>\<open>ExpLogitTransformer\<close> and \<^verbatim>\<open>IdentityFunctor\<close> take an
  output type \<open>Ty\<close> that defaults to the input type \<open>Tx\<close> and can be given
  explicitly. \<^verbatim>\<open>DivideFunctor\<close> has the single type parameter \<open>T\<close>, which is both
  its input and its output type, and accepts no second type argument. Each overload of
  \<^verbatim>\<open>ExpFunctor\<close> and \<^verbatim>\<open>LogFunctor\<close> returns the type of its argument.
\<close>

theorem output_type_of_templates:
  "ExpLogitTransformer_template [Tx] = Some (Tx, Tx) \<and>
   ExpLogitTransformer_template [Tx, Ty] = Some (Tx, Ty) \<and>
   IdentityFunctor_template [Tx] = Some (Tx, Tx) \<and>
   IdentityFunctor_template [Tx, Ty] = Some (Tx, Ty) \<and>
   DivideFunctor_template [T] = Some (T, T) \<and>
   DivideFunctor_template [T, Ty] = None \<and>
   ExpFunctor_return_type T = T \<and>
   LogFunctor_return_type T = T"
  by (cases T) simp_all

text \<open>
  C1 as stated fails for \<^verbatim>\<open>DivideFunctor\<close> and for the dispatch layer:
  \<^verbatim>\<open>DivideFunctor<float, double>\<close> is not an instance of the template, and the
  \<^verbatim>\<open>float\<close> overload of \<^verbatim>\<open>ExpFunctor\<close> returns \<^verbatim>\<open>float\<close>.
\<close>

theorem DivideFunctor_output_type_not_overridable:
  "DivideFunctor_template [Float32, Float64] \<noteq> Some (Float32, Float64) \<and>
   ExpFunctor_return_type Float32 \<noteq> Float64"
  by simp

text \<open>
  C2: for each of the three input types and every construction count \<open>n\<close>,
  \<^verbatim>\<open>ExpLogitTransformer<Tx, Ty>(n)\<close> applied to \<open>x\<close> returns the exponential routine
  of the input type (\<^verbatim>\<open>Eigen::numext::exp\<close> for \<^verbatim>\<open>float16\<close>, \<^verbatim>\<open>expf\<close> for
  \<^verbatim>\<open>float\<close>, \<^verbatim>\<open>exp\<close> for \<^verbatim>\<open>double\<close>) applied to \<open>x\<close>, cast to \<open>Ty\<close>.
\<close>

theorem ExpLogitTransformer_returns_exp:
  "ExpLogitTransformer_call lib Float16 Ty (ExpLogitTransformer_ctor n) x =
     static_cast Float16 Ty (numext_exp lib x) \<and>
   ExpLogitTransformer_call lib Float32 Ty (ExpLogitTransformer_ctor n) x =
     static_cast Float32 Ty (expf lib x) \<and>
   ExpLogitTransformer_call lib Float64 Ty (ExpLogitTransformer_ctor n) x =
     static_cast Float64 Ty (exp lib x)"
  by (simp add: ExpLogitTransformer_call_def)

text \<open>
  C4: \<^verbatim>\<open>DivideFunctor<T>\<close> constructed with \<open>n\<close> holds in \<open>n_inv\<close> the
  \<^verbatim>\<open>double\<close> quotient \<open>1.0 / n\<close> cast to \<open>T\<close>. Every invocation, on each element of
  any sequence of inputs, returns its argument multiplied by that one stored value; the
  object is not changed by an invocation, and no division takes place in it: for
  \<open>n = 10\<close> and \<open>x = 3.0\<close> in \<^verbatim>\<open>double\<close> the result is the product
  \<open>0x3FD3333333333334\<close>, not the quotient \<open>0x3FD3333333333333\<close>.
\<close>

theorem DivideFunctor_stores_reciprocal:
  "n_inv (DivideFunctor_ctor T n) =
     static_cast Float64 T (fdiv Float64 (fp_one Float64) (int_to_double n)) \<and>
   DivideFunctor_call T (DivideFunctor_ctor T n) x =
     fmul T x (n_inv (DivideFunctor_ctor T n)) \<and>
   map (DivideFunctor_call T (DivideFunctor_ctor T n)) xs =
     map (\<lambda>x. fmul T x (static_cast Float64 T (fdiv Float64 (fp_one Float64) (int_to_double n)))) xs \<and>
   DivideFunctor_call Float64 (DivideFunctor_ctor Float64 10) (literal Float64 3) =
     FP False 1021 0x3333333333334 \<and>
   fdiv Float64 (literal Float64 3) (literal Float64 10) = FP False 1021 0x3333333333333"
proof -
  have c: "n_inv (DivideFunctor_ctor T n) =
      static_cast Float64 T (fdiv Float64 (fp_one Float64) (int_to_double n))"
    by (simp add: DivideFunctor_ctor_def)
  have l: "literal Float64 3 = FP False 1024 0x8000000000000"
    "literal Float64 10 = FP False 1026 0x4000000000000"
    by (simp_all add: literal_def fp_eval)
  have r: "n_inv (DivideFunctor_ctor Float64 10) = FP False 1019 0x999999999999A"
    by (simp add: DivideFunctor_ctor_def int_to_double_def fdiv_def static_cast_def fp_eval)
  have p: "fmul Float64 (FP False 1024 0x8000000000000) (FP False 1019 0x999999999999A) =
      FP False 1021 0x3333333333334"
    by (simp add: fmul_def fp_eval)
  have d: "fdiv Float64 (FP False 1024 0x8000000000000) (FP False 1026 0x4000000000000) =
      FP False 1021 0x3333333333333"
    by (simp add: fdiv_def fp_eval)
  show ?thesis
    unfolding l d by (simp add: DivideFunctor_call_def c [symmetric] r p)
qed

text \<open>
  C5: for each of the three functors and every count \<open>n\<close>, the pointer form applied to a
  non-empty sequence returns what the scalar form returns on the element at index 0, and
  the elements after it do not matter.
\<close>

theorem call_ptr_is_call_on_first:
  "xs \<noteq> [] \<Longrightarrow>
   ExpLogitTransformer_call_ptr lib Tx Ty (ExpLogitTransformer_ctor n) xs =
     Some (ExpLogitTransformer_call lib Tx Ty (ExpLogitTransformer_ctor n) (xs ! 0)) \<and>
   IdentityFunctor_call_ptr Tx Ty (IdentityFunctor_ctor n) xs =
     Some (IdentityFunctor_call Tx Ty (IdentityFunctor_ctor n) (xs ! 0)) \<and>
   DivideFunctor_call_ptr T (DivideFunctor_ctor T n) xs =
     Some (DivideFunctor_call T (DivideFunctor_ctor T n) (xs ! 0)) \<and>
   ExpLogitTransformer_call_ptr lib Tx Ty (ExpLogitTransformer_ctor n) (xs ! 0 # ys) =
     ExpLogitTransformer_call_ptr lib Tx Ty (ExpLogitTransformer_ctor n) xs \<and>
   IdentityFunctor_call_ptr Tx Ty (IdentityFunctor_ctor n) (xs ! 0 # ys) =
     IdentityFunctor_call_ptr Tx Ty (IdentityFunctor_ctor n) xs \<and>
   DivideFunctor_call_ptr T (DivideFunctor_ctor T n) (xs ! 0 # ys) =
     DivideFunctor_call_ptr T (DivideFunctor_ctor T n) xs"
  by (simp add: ExpLogitTransformer_call_ptr_def ExpLogitTransformer_call_def
      IdentityFunctor_call_ptr_def IdentityFunctor_call_def
      DivideFunctor_call_ptr_def DivideFunctor_call_def index_def)

theorem call_ptr_is_call_on_first_witness:
  "[FP False 128 0, FP True 129 0] \<noteq> [] \<and>
   ExpLogitTransformer_call_ptr
       \<lparr>numext_exp = id, expf = id, exp = id, numext_log = id, logf = id, log = id\<rparr>
       Float32 Float64 (ExpLogitTransformer_ctor 7) [FP False 128 0, FP True 129 0] =
     Some (ExpLogitTransformer_call
       \<lparr>numext_exp = id, expf = id, exp = id, numext_log = id, logf = id, log = id\<rparr>
       Float32 Float64 (ExpLogitTransformer_ctor 7) (FP False 128 0)) \<and>
   IdentityFunctor_call_ptr Float32 Float64 (IdentityFunctor_ctor 7)
       [FP False 128 0, FP True 129 0] =
     Some (IdentityFunctor_call Float32 Float64 (IdentityFunctor_ctor 7) (FP False 128 0)) \<and>
   DivideFunctor_call_ptr Float32 (DivideFunctor_ctor Float32 7)
       [FP False 128 0, FP True 129 0] =
     Some (DivideFunctor_call Float32 (DivideFunctor_ctor Float32 7) (FP False 128 0)) \<and>
   DivideFunctor_call_ptr Float32 (DivideFunctor_ctor Float32 7) [FP False 128 0] =
     DivideFunctor_call_ptr Float32 (DivideFunctor_ctor Float32 7)
       [FP False 128 0, FP True 129 0]"
proof -
  have ne: "[FP False 128 0, FP True 129 0] \<noteq> []" by simp
  show ?thesis
    using ne call_ptr_is_call_on_first [OF ne,
        of "\<lparr>numext_exp = id, expf = id, exp = id, numext_log = id, logf = id, log = id\<rparr>"
          Float32 Float64 7 Float32 "[]"]
    by simp
qed

text \<open>
  C6, as the code has it: for every count \<open>n\<close> and every input \<open>x\<close>,
  \<^verbatim>\<open>IdentityFunctor<Tx, Ty>(n)\<close> returns \<open>x\<close> cast to \<open>Ty\<close> and applies nothing else
  to it. When \<open>Ty\<close> is \<open>Tx\<close> the result is \<open>x\<close> itself. For a finite \<open>x\<close> the result
  has the value of \<open>x\<close> whenever some finite \<open>y\<close> of type \<open>Ty\<close> has that value, and then
  it is that \<open>y\<close>; this is always so when \<open>Ty\<close> is wider than \<open>Tx\<close>.
\<close>

theorem IdentityFunctor_returns_cast:
  "IdentityFunctor_call Tx Ty (IdentityFunctor_ctor n) x = static_cast Tx Ty x \<and>
   IdentityFunctor_call_ptr Tx Ty (IdentityFunctor_ctor n) (x # xs) = Some (static_cast Tx Ty x) \<and>
   IdentityFunctor_call T T (IdentityFunctor_ctor n) x = x \<and>
   (valid Tx x \<and> is_finite Tx x \<and> valid Ty y \<and> is_finite Ty y \<and> same_value Tx x Ty y \<longrightarrow>
      IdentityFunctor_call Tx Ty (IdentityFunctor_ctor n) x = y) \<and>
   (narrower Tx Ty \<and> valid Tx x \<and> is_finite Tx x \<longrightarrow>
      valid Ty (IdentityFunctor_call Tx Ty (IdentityFunctor_ctor n) x) \<and>
      is_finite Ty (IdentityFunctor_call Tx Ty (IdentityFunctor_ctor n) x) \<and>
      same_value Tx x Ty (IdentityFunctor_call Tx Ty (IdentityFunctor_ctor n) x))"
proof -
  have "IdentityFunctor_call T T (IdentityFunctor_ctor n) x = x"
    by (simp add: IdentityFunctor_call_def static_cast_def)
  then show ?thesis
    by (simp add: IdentityFunctor_call_def IdentityFunctor_call_ptr_def index_def
        static_cast_widen static_cast_widen_valid static_cast_exact)
qed

theorem IdentityFunctor_returns_cast_witness:
  "valid Float64 (FP False 1022 0) \<and> is_finite Float64 (FP False 1022 0) \<and>
   valid Float32 (FP False 126 0) \<and> is_finite Float32 (FP False 126 0) \<and>
   same_value Float64 (FP False 1022 0) Float32 (FP False 126 0) \<and>
   IdentityFunctor_call Float64 Float32 (IdentityFunctor_ctor 4) (FP False 1022 0) =
     FP False 126 0 \<and>
   narrower Float32 Float64 \<and> valid Float32 (FP False 123 0x4CCCCD) \<and>
   is_finite Float32 (FP False 123 0x4CCCCD) \<and>
   is_finite Float64
     (IdentityFunctor_call Float32 Float64 (IdentityFunctor_ctor 4) (FP False 123 0x4CCCCD)) \<and>
   same_value Float32 (FP False 123 0x4CCCCD) Float64
     (IdentityFunctor_call Float32 Float64 (IdentityFunctor_ctor 4) (FP False 123 0x4CCCCD))"
proof -
  have r: "valid Float64 (FP False 1022 0) \<and> is_finite Float64 (FP False 1022 0) \<and>
      valid Float32 (FP False 126 0) \<and> is_finite Float32 (FP False 126 0) \<and>
      same_value Float64 (FP False 1022 0) Float32 (FP False 126 0)"
    by (simp add: valid_def is_finite_def emax_def same_value_def sig_def ex_def bias_def)
  have h: "narrower Float32 Float64 \<and> valid Float32 (FP False 123 0x4CCCCD) \<and>
      is_finite Float32 (FP False 123 0x4CCCCD)"
    by (simp add: narrower_def valid_def is_finite_def emax_def)
  show ?thesis
    using r h
      IdentityFunctor_returns_cast [of Float64 Float32 4 "FP False 1022 0" _ _ "FP False 126 0"]
      IdentityFunctor_returns_cast [of Float32 Float64 4 "FP False 123 0x4CCCCD"]
    by blast
qed

text \<open>
  C6 as stated fails for a narrowing cast: \<^verbatim>\<open>IdentityFunctor<double, float>\<close> applied to
  the finite \<^verbatim>\<open>double\<close> nearest to \<open>0.1\<close>, \<open>0x3FB999999999999A\<close>, returns the
  \<^verbatim>\<open>float\<close> \<open>0x3DCCCCCD\<close>, which has another value.
\<close>

theorem IdentityFunctor_narrowing_changes_value:
  "valid Float64 (FP False 1019 0x999999999999A) \<and>
   is_finite Float64 (FP False 1019 0x999999999999A) \<and>
   IdentityFunctor_call Float64 Float32 (IdentityFunctor_ctor 4) (FP False 1019 0x999999999999A) =
     FP False 123 0x4CCCCD \<and>
   \<not> same_value Float64 (FP False 1019 0x999999999999A) Float32
     (IdentityFunctor_call Float64 Float32 (IdentityFunctor_ctor 4)
       (FP False 1019 0x999999999999A))"
proof -
  have c: "IdentityFunctor_call Float64 Float32 (IdentityFunctor_ctor 4)
      (FP False 1019 0x999999999999A) = FP False 123 0x4CCCCD"
    by (simp add: IdentityFunctor_call_def static_cast_def convert_def fp_eval)
  have v: "valid Float64 (FP False 1019 0x999999999999A)"
    "is_finite Float64 (FP False 1019 0x999999999999A)"
    by (simp_all add: valid_def is_finite_def emax_def)
  have s: "\<not> same_value Float64 (FP False 1019 0x999999999999A) Float32 (FP False 123 0x4CCCCD)"
    by (simp add: same_value_def sig_def ex_def bias_def)
  show ?thesis unfolding c using v s by simp
qed

text \<open>
  C7: \<^verbatim>\<open>ExpLogitTransformer\<close> and \<^verbatim>\<open>IdentityFunctor\<close> keep nothing of their
  construction argument: two counts \<open>n1\<close> and \<open>n2\<close> construct the same object, and the two
  objects return the same result on every scalar and on every sequence.
\<close>

theorem count_is_ignored:
  "ExpLogitTransformer_ctor n1 = ExpLogitTransformer_ctor n2 \<and>
   IdentityFunctor_ctor n1 = IdentityFunctor_ctor n2 \<and>
   ExpLogitTransformer_call lib Tx Ty (ExpLogitTransformer_ctor n1) x =
     ExpLogitTransformer_call lib Tx Ty (ExpLogitTransformer_ctor n2) x \<and>
   ExpLogitTransformer_call_ptr lib Tx Ty (ExpLogitTransformer_ctor n1) xs =
     ExpLogitTransformer_call_ptr lib Tx Ty (ExpLogitTransformer_ctor n2) xs \<and>
   IdentityFunctor_call Tx Ty (IdentityFunctor_ctor n1) x =
     IdentityFunctor_call Tx Ty (IdentityFunctor_ctor n2) x \<and>
   IdentityFunctor_call_ptr Tx Ty (IdentityFunctor_ctor n1) xs =
     IdentityFunctor_call_ptr Tx Ty (IdentityFunctor_ctor n2) xs"
  by (simp add: ExpLogitTransformer_ctor_def IdentityFunctor_ctor_def)

text \<open>
  C8: constructing \<^verbatim>\<open>DivideFunctor\<close> with \<open>n = 0\<close> yields an object, not a failure.
  Its stored reciprocal is positive infinity, and applying it to \<open>x\<close> gives
  \<open>x\<close> times infinity: a NaN when \<open>x\<close> is a NaN or a zero, and otherwise the infinity
  that has the sign of \<open>x\<close>.
\<close>

theorem DivideFunctor_zero_count:
  "n_inv (DivideFunctor_ctor T 0) = fp_inf T False \<and>
   DivideFunctor_call T (DivideFunctor_ctor T 0) x = fmul T x (fp_inf T False) \<and>
   (is_nan T x \<or> is_zero x \<longrightarrow> is_nan T (DivideFunctor_call T (DivideFunctor_ctor T 0) x)) \<and>
   (\<not> is_nan T x \<and> \<not> is_zero x \<longrightarrow>
      DivideFunctor_call T (DivideFunctor_ctor T 0) x = fp_inf T (sign x))"
proof -
  have i: "\<not> is_nan T (fp_inf T False)" "is_inf T (fp_inf T False)" "\<not> is_zero (fp_inf T False)"
    by (simp_all add: is_nan_def is_inf_def is_zero_def fp_inf_def emax_bias)
  have q: "is_nan T (qnan T)" by (simp add: is_nan_def qnan_def)
  show ?thesis by (simp add: DivideFunctor_call_def n_inv_0 fmul_def i q sign_fp_inf)
qed

theorem DivideFunctor_zero_count_witness:
  "is_zero (FP True 0 0) \<and>
   is_nan Float64 (DivideFunctor_call Float64 (DivideFunctor_ctor Float64 0) (FP True 0 0)) \<and>
   \<not> is_nan Float64 (FP True 1024 0) \<and> \<not> is_zero (FP True 1024 0) \<and>
   DivideFunctor_call Float64 (DivideFunctor_ctor Float64 0) (FP True 1024 0) = FP True 2047 0"
proof -
  have z: "is_zero (FP True 0 0)" by (simp add: is_zero_def)
  have n: "\<not> is_nan Float64 (FP True 1024 0)" "\<not> is_zero (FP True 1024 0)"
    by (simp_all add: is_nan_def is_zero_def emax_def)
  have i: "fp_inf Float64 (sign (FP True 1024 0)) = FP True 2047 0"
    by (simp add: fp_inf_def emax_def)
  show ?thesis
    using DivideFunctor_zero_count [of Float64 "FP True 0 0"]
      DivideFunctor_zero_count [of Float64 "FP True 1024 0"] z n i
    by metis
qed

text \<open>
  C9: for each of the three scalar types, summing \<open>[2.0, 4.0, 6.0, 8.0]\<close> yields
  \<open>20.0\<close>, accumulated from left to right from zero as well as pairwise;
  \<^verbatim>\<open>DivideFunctor\<close> constructed with \<open>n = 4\<close> stores the reciprocal \<open>0.25\<close> and
  maps that sum to exactly \<open>5.0\<close>.
\<close>

theorem mean_of_four_is_five:
  "foldl (fadd T) (fp_zero False) [literal T 2, literal T 4, literal T 6, literal T 8] =
     literal T 20 \<and>
   fadd T (fadd T (literal T 2) (literal T 4)) (fadd T (literal T 6) (literal T 8)) =
     literal T 20 \<and>
   n_inv (DivideFunctor_ctor T 4) = FP False (bias T - 2) 0 \<and>
   DivideFunctor_call T (DivideFunctor_ctor T 4) (literal T 20) = literal T 5 \<and>
   DivideFunctor_call T (DivideFunctor_ctor T 4)
     (foldl (fadd T) (fp_zero False) [literal T 2, literal T 4, literal T 6, literal T 8]) =
     literal T 5 \<and>
   literal Float64 5 = FP False 1025 0x4000000000000"
proof -
  have s: "foldl (fadd T) (fp_zero False) [literal T 2, literal T 4, literal T 6, literal T 8] =
      literal T 20"
    by (simp add: fadd_0_2 fadd_2_4 fadd_6_6 fadd_12_8)
  have f: "literal Float64 5 = FP False 1025 0x4000000000000"
    by (simp add: literal_eval bias_def)
  show ?thesis
    unfolding s DivideFunctor_call_def n_inv_4 fmul_20_quarter f
    by (simp add: fadd_2_4 fadd_6_8 fadd_6_14)
qed

text \<open>
  C10: \<^verbatim>\<open>DivideFunctor\<close> constructed with \<open>n = 1\<close> is the exact identity. The stored
  reciprocal \<^verbatim>\<open>(T)(1.0 / 1)\<close> is exactly one, and applied to a finite \<open>x\<close> of type
  \<open>T\<close>, a zero of either sign and a subnormal included, the functor returns \<open>x\<close>
  bit for bit.
\<close>

theorem DivideFunctor_one_is_identity:
  "n_inv (DivideFunctor_ctor T 1) = fp_one T \<and>
   (valid T x \<and> is_finite T x \<longrightarrow> DivideFunctor_call T (DivideFunctor_ctor T 1) x = x)"
  by (simp add: DivideFunctor_call_def n_inv_1 fmul_one)

theorem DivideFunctor_one_is_identity_witness:
  "valid Float32 (FP True 128 4194304) \<and> is_finite Float32 (FP True 128 4194304) \<and>
   DivideFunctor_call Float32 (DivideFunctor_ctor Float32 1) (FP True 128 4194304) =
     FP True 128 4194304 \<and>
   valid Float64 (FP True 0 0) \<and> is_finite Float64 (FP True 0 0) \<and>
   DivideFunctor_call Float64 (DivideFunctor_ctor Float64 1) (FP True 0 0) = FP True 0 0 \<and>
   valid Float64 (FP False 0 1) \<and> is_finite Float64 (FP False 0 1) \<and>
   DivideFunctor_call Float64 (DivideFunctor_ctor Float64 1) (FP False 0 1) = FP False 0 1"
  using DivideFunctor_one_is_identity [of Float32 "FP True 128 4194304"]
    DivideFunctor_one_is_identity [of Float64 "FP True 0 0"]
    DivideFunctor_one_is_identity [of Float64 "FP False 0 1"]
  by (simp add: valid_def is_finite_def emax_def)

end
